theory Spec2Isabelle
  imports Main "HOL-Library.Word" "HOL-Library.Sublist"
begin

section \<open>Data model of gosnmp.go\<close>

text \<open>
  Go strings are byte sequences, as \<^typ>\<open>string\<close> is. An \<open>error\<close> of the source is a
  value built by \<open>fmt.Errorf\<close>; the constructors below name the format string each one
  comes from and carry the text of the wrapped error.
\<close>

datatype error =
    ErrNoOID              \<comment> \<open>\<open>"No OID given\n"\<close>\<close>
  | ErrMarshal string     \<comment> \<open>the error of \<open>packet.marshal()\<close>, returned as it is\<close>
  | ErrWrite string       \<comment> \<open>\<open>"Error writing to socket: %s\n"\<close>\<close>
  | ErrRead string        \<comment> \<open>\<open>"Error reading from UDP: %s\n"\<close>\<close>
  | ErrDecode string      \<comment> \<open>\<open>"Unable to decode packet: %s\n"\<close>\<close>
  | ErrNoResponses        \<comment> \<open>\<open>"No responses received."\<close>\<close>

text \<open>
  Modelled from the spec: the declarations of \<open>Asn1BER\<close>, \<open>SnmpVersion\<close>, the request
  kinds, \<open>SnmpPDU\<close> and \<open>SnmpPacket\<close> are not part of gosnmp.go. The spec gives a type tag
  with at least \<open>Null\<close>, the operation kinds Get, GetNext and GetBulk, and the fields of a
  packet; \<open>NonRepeaters\<close> and \<open>MaxRepetitions\<close> are assigned from \<open>uint8\<close> parameters.
  \<open>Value\<close> is an \<open>interface{}\<close>: \<open>VNil\<close> is the nil interface, \<open>VString\<close> a Go string and
  \<open>VOther\<close> stands for a value of any other dynamic type.
\<close>

datatype Asn1BER = Null | OtherType nat

datatype MessageType = GetRequest | GetNextRequest | GetBulkRequest | OtherRequest nat

datatype val = VNil | VString string | VOther nat

type_synonym SnmpVersion = "8 word"

record SnmpPDU =
  Name :: string
  Type :: Asn1BER
  Value :: val

text \<open>
  The network connection \<open>net.Conn\<close>: \<open>sent\<close> records every buffer handed to
  \<open>conn.Write\<close>, oldest first, and \<open>peer\<close> is the state of everything behind the socket.
\<close>

record ('b, 'p) NetConn =
  sent :: "'b list"
  peer :: "'p"

text \<open>The session. The logger \<open>Log\<close> only prints and is left out.\<close>

record ('b, 'p) Conn =
  Target :: string
  Community :: string
  Version :: SnmpVersion
  Timeout :: int
  conn :: "('b, 'p) NetConn"

record SnmpPacket =
  Version :: SnmpVersion
  Community :: string
  RequestType :: MessageType
  Error :: "8 word"
  ErrorIndex :: "8 word"
  NonRepeaters :: "8 word"
  MaxRepetitions :: "8 word"
  Variables :: "SnmpPDU list"

text \<open>
  Code outside gosnmp.go that \<open>sendPacket\<close> calls: the codec (\<open>packet.marshal\<close>,
  \<open>Unmarshal\<close>) and the socket (\<open>conn.Write\<close>, \<open>conn.Read\<close>). They are parameters of the
  model. A codec call returns a value, returns an error, or panics; the wire format \<open>'b\<close>
  is never inspected by gosnmp.go. \<open>conn_Read\<close> yields the bytes \<open>resp[:n]\<close>.
\<close>

datatype 'a codec = Ok 'a | Failed string | Fault string

record ('b, 'p) world =
  marshal :: "SnmpPacket \<Rightarrow> 'b codec"
  Unmarshal :: "'b \<Rightarrow> SnmpPacket codec"
  conn_Write :: "'p \<Rightarrow> 'b \<Rightarrow> string option \<times> 'p"
  conn_Read :: "'p \<Rightarrow> (string + 'b) \<times> 'p"

text \<open>
  What a call does: it returns with a state and a value, it panics with a state, or the
  fuel of a loop ran out before it returned.
\<close>

datatype ('s, 'a) outcome = Return 's 'a | Panic 's string | OutOfFuel

definition returned :: "('s, 'a) outcome \<Rightarrow> 'a option" where
  "returned r = (case r of Return s a \<Rightarrow> Some a | Panic s m \<Rightarrow> None | OutOfFuel \<Rightarrow> None)"

definition final :: "('s, 'a) outcome \<Rightarrow> 's option" where
  "final r = (case r of Return s a \<Rightarrow> Some s | Panic s m \<Rightarrow> Some s | OutOfFuel \<Rightarrow> None)"

definition panicked :: "('s, 'a) outcome \<Rightarrow> bool" where
  "panicked r = (case r of Return s a \<Rightarrow> False | Panic s m \<Rightarrow> True | OutOfFuel \<Rightarrow> False)"

section \<open>Dispatch\<close>

text \<open>
  \<open>sendPacket\<close>: marshal, write, read, unmarshal, then reject a response without
  variables. \<open>SetDeadline\<close> concerns real time and is not modelled.
\<close>

definition sendPacket ::
  "('b, 'p) world \<Rightarrow> ('b, 'p) Conn \<Rightarrow> SnmpPacket \<Rightarrow>
     (('b, 'p) Conn, SnmpPacket option \<times> error option) outcome" where
  "sendPacket w x packet =
     (case marshal w packet of
        Fault m \<Rightarrow> Panic x m
      | Failed e \<Rightarrow> Return x (None, Some (ErrMarshal e))
      | Ok fBuf \<Rightarrow>
          (case conn_Write w (peer (conn x)) fBuf of (werr, p1) \<Rightarrow>
             let x1 = x\<lparr>conn := \<lparr>sent = sent (conn x) @ [fBuf], peer = p1\<rparr>\<rparr> in
             (case werr of
                Some e \<Rightarrow> Return x1 (None, Some (ErrWrite e))
              | None \<Rightarrow>
                  (case conn_Read w p1 of (rd, p2) \<Rightarrow>
                     let x2 = x1\<lparr>conn := \<lparr>sent = sent (conn x1), peer = p2\<rparr>\<rparr> in
                     (case rd of
                        Inl e \<Rightarrow> Return x2 (None, Some (ErrRead e))
                      | Inr resp \<Rightarrow>
                          (case Unmarshal w resp of
                             Fault m \<Rightarrow> Panic x2 m
                           | Failed e \<Rightarrow> Return x2 (None, Some (ErrDecode e))
                           | Ok pdu \<Rightarrow>
                               if length (Variables pdu) < 1
                               then Return x2 (None, Some ErrNoResponses)
                               else Return x2 (Some pdu, None)))))))"

text \<open>
  The deferred function of the four operations recovers a panic and assigns the local
  variable \<open>err\<close>. The results of these functions are unnamed, so after a recovered panic
  the caller receives their zero values, \<open>(nil, nil)\<close>.
\<close>

definition recovered ::
  "(('b, 'p) Conn, SnmpPacket option \<times> error option) outcome \<Rightarrow> ('b, 'p) Conn \<Rightarrow>
     ('b, 'p) Conn \<times> SnmpPacket option \<times> error option" where
  "recovered r x0 =
     (case r of
        Return x (res, err) \<Rightarrow> (x, res, err)
      | Panic x m \<Rightarrow> (x, None, None)
      | OutOfFuel \<Rightarrow> (x0, None, None))"

text \<open>The packets the four operations construct.\<close>

definition GetNext_packet :: "('b, 'p) Conn \<Rightarrow> string \<Rightarrow> SnmpPacket" where
  "GetNext_packet x oid =
     \<lparr>Version = 1, Community = Conn.Community x, RequestType = GetNextRequest,
      Error = 0, ErrorIndex = 0, NonRepeaters = 0, MaxRepetitions = 0,
      Variables = [\<lparr>Name = oid, Type = Null, Value = VNil\<rparr>]\<rparr>"

definition GetBulk_packet ::
  "('b, 'p) Conn \<Rightarrow> 8 word \<Rightarrow> 8 word \<Rightarrow> string list \<Rightarrow> SnmpPacket" where
  "GetBulk_packet x nonRepeaters maxRepetitions oids =
     \<lparr>Version = 1, Community = Conn.Community x, RequestType = GetBulkRequest,
      Error = 0, ErrorIndex = 0, NonRepeaters = nonRepeaters,
      MaxRepetitions = maxRepetitions,
      Variables = map (\<lambda>oid. \<lparr>Name = oid, Type = Null, Value = VNil\<rparr>) oids\<rparr>"

definition Get_packet :: "('b, 'p) Conn \<Rightarrow> string \<Rightarrow> SnmpPacket" where
  "Get_packet x oid =
     \<lparr>Version = 1, Community = Conn.Community x, RequestType = GetRequest,
      Error = 0, ErrorIndex = 0, NonRepeaters = 0, MaxRepetitions = 0,
      Variables = [\<lparr>Name = oid, Type = Null, Value = VNil\<rparr>]\<rparr>"

definition GetMulti_packet :: "('b, 'p) Conn \<Rightarrow> string list \<Rightarrow> SnmpPacket" where
  "GetMulti_packet x oids =
     \<lparr>Version = 1, Community = Conn.Community x, RequestType = GetRequest,
      Error = 0, ErrorIndex = 0, NonRepeaters = 0, MaxRepetitions = 0,
      Variables = map (\<lambda>oid. \<lparr>Name = oid, Type = Null, Value = VNil\<rparr>) oids\<rparr>"

definition GetNext ::
  "('b, 'p) world \<Rightarrow> ('b, 'p) Conn \<Rightarrow> string \<Rightarrow>
     ('b, 'p) Conn \<times> SnmpPacket option \<times> error option" where
  "GetNext w x oid = recovered (sendPacket w x (GetNext_packet x oid)) x"

definition GetBulk ::
  "('b, 'p) world \<Rightarrow> ('b, 'p) Conn \<Rightarrow> 8 word \<Rightarrow> 8 word \<Rightarrow> string list \<Rightarrow>
     ('b, 'p) Conn \<times> SnmpPacket option \<times> error option" where
  "GetBulk w x nonRepeaters maxRepetitions oids =
     recovered (sendPacket w x (GetBulk_packet x nonRepeaters maxRepetitions oids)) x"

definition Get ::
  "('b, 'p) world \<Rightarrow> ('b, 'p) Conn \<Rightarrow> string \<Rightarrow>
     ('b, 'p) Conn \<times> SnmpPacket option \<times> error option" where
  "Get w x oid = recovered (sendPacket w x (Get_packet x oid)) x"

definition GetMulti ::
  "('b, 'p) world \<Rightarrow> ('b, 'p) Conn \<Rightarrow> string list \<Rightarrow>
     ('b, 'p) Conn \<times> SnmpPacket option \<times> error option" where
  "GetMulti w x oids = recovered (sendPacket w x (GetMulti_packet x oids)) x"

section \<open>String functions of the Go library\<close>

text \<open>
  \<open>strings.Index(s, substr)\<close> is the position of the first occurrence of \<open>substr\<close> in
  \<open>s\<close>, or \<open>-1\<close>; \<open>strings.HasPrefix(s, p)\<close> tells whether \<open>s\<close> begins with \<open>p\<close>.
\<close>

fun strings_Index :: "string \<Rightarrow> string \<Rightarrow> int" where
  "strings_Index [] substr = (if substr = [] then 0 else - 1)"
| "strings_Index (c # t) substr =
     (if prefix substr (c # t) then 0
      else (let i = strings_Index t substr in if i < 0 then - 1 else i + 1))"

definition strings_HasPrefix :: "string \<Rightarrow> string \<Rightarrow> bool" where
  "strings_HasPrefix s p = prefix p s"

section \<open>Channels\<close>

text \<open>
  A channel is the sequence of what happened to it. Sending on a closed channel and
  closing a closed channel panic; \<open>None\<close> is that panic. The consumer is taken to receive
  every value, so a send never blocks. \<open>StreamWalk\<close> sends variables on a
  \<open>chan SnmpPDU\<close>; \<open>StreamBulkWalk\<close> sends addresses on a \<open>chan *SnmpPDU\<close>.
\<close>

datatype 'a event = Sent 'a | Closed

type_synonym 'a chan = "'a event list"

definition chan_send :: "'a chan \<Rightarrow> 'a \<Rightarrow> 'a chan option" where
  "chan_send c v = (if Closed \<in> set c then None else Some (c @ [Sent v]))"

definition chan_close :: "'a chan \<Rightarrow> 'a chan option" where
  "chan_close c = (if Closed \<in> set c then None else Some (c @ [Closed]))"

text \<open>\<open>close(c); return err\<close>\<close>

definition close_return ::
  "'s \<Rightarrow> 'a chan \<Rightarrow> error option \<Rightarrow> ('s \<times> 'a chan, error option) outcome" where
  "close_return x c err =
     (case chan_close c of
        None \<Rightarrow> Panic (x, c) ''close of closed channel''
      | Some c' \<Rightarrow> Return (x, c') err)"

section \<open>Sequential walk\<close>

text \<open>
  The \<open>for\<close> loop of \<open>Walk\<close>; the fuel bounds the number of iterations. \<open>requestOid\<close> is
  the root, \<open>oid\<close> the cursor.
\<close>

fun Walk_loop ::
  "nat \<Rightarrow> ('b, 'p) world \<Rightarrow> ('b, 'p) Conn \<Rightarrow> string \<Rightarrow> string \<Rightarrow> SnmpPDU list \<Rightarrow>
     (('b, 'p) Conn, SnmpPDU list \<times> error option) outcome" where
  "Walk_loop 0 w x requestOid oid results = OutOfFuel"
| "Walk_loop (Suc n) w x requestOid oid results =
     (case GetNext w x oid of (x', res, err) \<Rightarrow>
        if err \<noteq> None then Return x' (results, err)
        else (case res of
                None \<Rightarrow> Return x' (results, None)
              | Some r \<Rightarrow>
                  (case Variables r of
                     [] \<Rightarrow> Return x' (results, None)
                   | v # _ \<Rightarrow>
                       if strings_Index (Name v) requestOid > - 1
                       then Walk_loop n w x' requestOid (Name v) (results @ [v])
                       else Return x' (results, None))))"

definition Walk ::
  "nat \<Rightarrow> ('b, 'p) world \<Rightarrow> ('b, 'p) Conn \<Rightarrow> string \<Rightarrow>
     (('b, 'p) Conn, SnmpPDU list \<times> error option) outcome" where
  "Walk fuel w x oid =
     (if oid = [] then Return x ([], Some ErrNoOID)
      else Walk_loop fuel w x oid oid [])"

fun StreamWalk_loop ::
  "nat \<Rightarrow> ('b, 'p) world \<Rightarrow> ('b, 'p) Conn \<Rightarrow> string \<Rightarrow> string \<Rightarrow> SnmpPDU chan \<Rightarrow>
     (('b, 'p) Conn \<times> SnmpPDU chan, error option) outcome" where
  "StreamWalk_loop 0 w x requestOid oid c = OutOfFuel"
| "StreamWalk_loop (Suc n) w x requestOid oid c =
     (case GetNext w x oid of (x', res, err) \<Rightarrow>
        if err \<noteq> None then close_return x' c err
        else (case res of
                None \<Rightarrow> close_return x' c None
              | Some r \<Rightarrow>
                  (case Variables r of
                     [] \<Rightarrow> close_return x' c None
                   | v # _ \<Rightarrow>
                       if strings_Index (Name v) requestOid > - 1
                       then (case chan_send c v of
                               None \<Rightarrow> Panic (x', c) ''send on closed channel''
                             | Some c' \<Rightarrow> StreamWalk_loop n w x' requestOid (Name v) c')
                       else close_return x' c None)))"

definition StreamWalk ::
  "nat \<Rightarrow> ('b, 'p) world \<Rightarrow> ('b, 'p) Conn \<Rightarrow> string \<Rightarrow> SnmpPDU chan \<Rightarrow>
     (('b, 'p) Conn \<times> SnmpPDU chan, error option) outcome" where
  "StreamWalk fuel w x oid c =
     (if oid = [] then close_return x c (Some ErrNoOID)
      else StreamWalk_loop fuel w x oid oid c)"

section \<open>Bulk walk\<close>

text \<open>The two tests of the \<open>range\<close> loops: \<open>v.Value == "endOfMib"\<close> and
  \<open>strings.HasPrefix(v.Name, rootOID)\<close>.\<close>

definition is_endOfMib :: "SnmpPDU \<Rightarrow> bool" where
  "is_endOfMib v = (Value v = VString ''endOfMib'')"

definition in_range :: "string \<Rightarrow> SnmpPDU \<Rightarrow> bool" where
  "in_range rootOID v = strings_HasPrefix (Name v) rootOID"

text \<open>
  The \<open>range\<close> loop of \<open>_bulkWalk\<close> over the variables still to visit; \<open>i ==
  len(response.Variables)-1\<close> holds when none is left after \<open>v\<close>. \<open>rec\<close> is the recursive
  call \<open>x._bulkWalk(maxRepetitions, v.Name, rootOID)\<close>. A panic of the recursive call is
  not recovered here.
\<close>

fun bulkWalk_range ::
  "(('b, 'p) Conn \<Rightarrow> string \<Rightarrow> (('b, 'p) Conn, SnmpPDU list \<times> error option) outcome) \<Rightarrow>
     string \<Rightarrow> ('b, 'p) Conn \<Rightarrow> SnmpPDU list \<Rightarrow> SnmpPDU list \<Rightarrow>
     (('b, 'p) Conn, SnmpPDU list \<times> error option) outcome" where
  "bulkWalk_range rec rootOID x [] results = Return x (results, None)"
| "bulkWalk_range rec rootOID x (v # vs) results =
     (if is_endOfMib v then Return x (results, None)
      else if in_range rootOID v then
        (if vs = [] then
           (case rec x (Name v) of
              Return x' (subResults, err) \<Rightarrow>
                if err \<noteq> None then Return x' (results @ [v], err)
                else bulkWalk_range rec rootOID x' vs (results @ [v] @ subResults)
            | Panic x' m \<Rightarrow> Panic x' m
            | OutOfFuel \<Rightarrow> OutOfFuel)
         else bulkWalk_range rec rootOID x vs (results @ [v]))
      else bulkWalk_range rec rootOID x vs results)"

text \<open>
  \<open>_bulkWalk\<close>; the fuel bounds the depth of the recursion. When \<open>GetBulk\<close> returns
  \<open>(nil, nil)\<close>, reading \<open>response.Variables\<close> dereferences a nil pointer.
\<close>

fun priv_bulkWalk ::
  "nat \<Rightarrow> ('b, 'p) world \<Rightarrow> ('b, 'p) Conn \<Rightarrow> 8 word \<Rightarrow> string \<Rightarrow> string \<Rightarrow>
     (('b, 'p) Conn, SnmpPDU list \<times> error option) outcome" where
  "priv_bulkWalk 0 w x maxRepetitions searchingOID rootOID = OutOfFuel"
| "priv_bulkWalk (Suc n) w x maxRepetitions searchingOID rootOID =
     (case GetBulk w x 0 maxRepetitions [searchingOID] of (x1, response, err) \<Rightarrow>
        if err \<noteq> None then Return x1 ([], err)
        else (case response of
                None \<Rightarrow> Panic x1 ''nil pointer dereference''
              | Some r \<Rightarrow>
                  bulkWalk_range (\<lambda>x' oid. priv_bulkWalk n w x' maxRepetitions oid rootOID)
                    rootOID x1 (Variables r) []))"

definition BulkWalk ::
  "nat \<Rightarrow> ('b, 'p) world \<Rightarrow> ('b, 'p) Conn \<Rightarrow> 8 word \<Rightarrow> string \<Rightarrow>
     (('b, 'p) Conn, SnmpPDU list \<times> error option) outcome" where
  "BulkWalk fuel w x maxRepetitions oid =
     (if oid = [] then Return x ([], Some ErrNoOID)
      else priv_bulkWalk fuel w x maxRepetitions oid oid)"

text \<open>
  \<open>StreamBulkWalk\<close> sends \<open>&v\<close> and \<open>&subResult\<close>, the address of the variable of a
  \<open>range\<close> loop. Before Go 1.22 such a loop has one variable for all its iterations: it
  is allocated when the loop starts and assigned at each iteration, so every send of one
  loop carries the same address. The store is the list of the cells allocated so far,
  an address is a position in it, and a new cell holds the zero value.
\<close>

type_synonym addr = nat

type_synonym store = "SnmpPDU list"

definition zero_PDU :: SnmpPDU where
  "zero_PDU = \<lparr>Name = [], Type = OtherType 0, Value = VNil\<rparr>"

definition alloc :: "store \<Rightarrow> addr \<times> store" where
  "alloc h = (length h, h @ [zero_PDU])"

text \<open>
  \<open>for _, subResult := range subResults { resultChan <- &subResult }\<close>, with
  \<open>subResult\<close> at address \<open>b\<close>; \<open>Inl\<close> is the panic of a send on a closed channel.
\<close>

fun send_all ::
  "addr chan \<Rightarrow> store \<Rightarrow> addr \<Rightarrow> SnmpPDU list \<Rightarrow>
     (addr chan \<times> store) + (addr chan \<times> store)" where
  "send_all c h b [] = Inr (c, h)"
| "send_all c h b (v # vs) =
     (case chan_send c b of
        None \<Rightarrow> Inl (c, h[b := v])
      | Some c' \<Rightarrow> send_all c' (h[b := v]) b vs)"

text \<open>
  The \<open>range\<close> loop of \<open>StreamBulkWalk\<close>, with its variable \<open>v\<close> at address \<open>a\<close>: each
  iteration assigns the next variable of the batch to the cell, and \<open>resultChan <- &v\<close>
  sends \<open>a\<close>. The recursive call receives \<open>v.Name\<close>, a string, by value.
\<close>

fun StreamBulkWalk_range ::
  "(('b, 'p) Conn \<Rightarrow> string \<Rightarrow> (('b, 'p) Conn, SnmpPDU list \<times> error option) outcome) \<Rightarrow>
     string \<Rightarrow> ('b, 'p) Conn \<Rightarrow> addr \<Rightarrow> SnmpPDU list \<Rightarrow> addr chan \<Rightarrow> store \<Rightarrow>
     ((('b, 'p) Conn \<times> store) \<times> addr chan, error option) outcome" where
  "StreamBulkWalk_range rec rootOID x a [] c h = close_return (x, h) c None"
| "StreamBulkWalk_range rec rootOID x a (v # vs) c h =
     (if is_endOfMib v then close_return (x, h[a := v]) c None
      else if in_range rootOID v then
        (case chan_send c a of
           None \<Rightarrow> Panic ((x, h[a := v]), c) ''send on closed channel''
         | Some c1 \<Rightarrow>
             if vs = [] then
               (case rec x (Name v) of
                  Return x' (subResults, err) \<Rightarrow>
                    if err \<noteq> None then close_return (x', h[a := v]) c1 err
                    else (case alloc (h[a := v]) of (b, h2) \<Rightarrow>
                            (case send_all c1 h2 b subResults of
                               Inl (c2, h3) \<Rightarrow> Panic ((x', h3), c2) ''send on closed channel''
                             | Inr (c2, h3) \<Rightarrow> StreamBulkWalk_range rec rootOID x' a vs c2 h3))
                | Panic x' m \<Rightarrow> Panic ((x', h[a := v]), c1) m
                | OutOfFuel \<Rightarrow> OutOfFuel)
             else StreamBulkWalk_range rec rootOID x a vs c1 (h[a := v]))
      else StreamBulkWalk_range rec rootOID x a vs c (h[a := v]))"

text \<open>
  \<open>StreamBulkWalk\<close>, started with the store \<open>h\<close>. There is no test of \<open>oid\<close> and no
  deferred \<open>close\<close>: when \<open>GetBulk\<close> returns \<open>(nil, nil)\<close>, reading
  \<open>response.Variables\<close> panics and the panic leaves the function.
\<close>

definition StreamBulkWalk ::
  "nat \<Rightarrow> ('b, 'p) world \<Rightarrow> ('b, 'p) Conn \<Rightarrow> 8 word \<Rightarrow> string \<Rightarrow> addr chan \<Rightarrow> store \<Rightarrow>
     ((('b, 'p) Conn \<times> store) \<times> addr chan, error option) outcome" where
  "StreamBulkWalk fuel w x maxRepetitions oid resultChan h =
     (case GetBulk w x 0 maxRepetitions [oid] of (x1, response, err) \<Rightarrow>
        if err \<noteq> None then close_return (x1, h) resultChan err
        else (case response of
                None \<Rightarrow> Panic ((x1, h), resultChan) ''nil pointer dereference''
              | Some r \<Rightarrow>
                  (case alloc h of (a, h1) \<Rightarrow>
                     StreamBulkWalk_range
                       (\<lambda>x' seed. priv_bulkWalk fuel w x' maxRepetitions seed oid)
                       oid x1 a (Variables r) resultChan h1)))"


section \<open>A simulated agent\<close>

text \<open>
  Modelled from the spec: the simulated agent of the spec's testable properties, which
  is not part of gosnmp.go. The agent holds the variables of its tree in tree order.
  Object identifiers are ordered as sequences of numbers. A request is answered with the
  variables that follow its first object identifier: one for GetNext, up to
  \<open>MaxRepetitions\<close> for GetBulk; past the last variable of the tree comes one variable
  with the end-of-tree value, named like the variable before it (like the request when
  there is none). The codec of the simulation is the identity on packets.
\<close>

fun oid_fields :: "string \<Rightarrow> string list" where
  "oid_fields [] = [[]]"
| "oid_fields (c # s) =
     (if c = CHR ''.'' then [] # oid_fields s
      else (case oid_fields s of [] \<Rightarrow> [[c]] | f # fs \<Rightarrow> (c # f) # fs))"

definition digits_nat :: "string \<Rightarrow> nat" where
  "digits_nat s = foldl (\<lambda>a c. 10 * a + (of_char c - 48)) 0 s"

definition oid_key :: "string \<Rightarrow> nat list" where
  "oid_key s = map digits_nat (filter (\<lambda>f. f \<noteq> []) (oid_fields s))"

fun key_less :: "nat list \<Rightarrow> nat list \<Rightarrow> bool" where
  "key_less [] ys = (ys \<noteq> [])"
| "key_less (x # xs) [] = False"
| "key_less (x # xs) (y # ys) = (x < y \<or> (x = y \<and> key_less xs ys))"

definition oid_lt :: "string \<Rightarrow> string \<Rightarrow> bool" where
  "oid_lt a b = key_less (oid_key a) (oid_key b)"

definition after_oid :: "SnmpPDU list \<Rightarrow> string \<Rightarrow> SnmpPDU list" where
  "after_oid tree s = filter (\<lambda>v. oid_lt s (Name v)) tree"

definition endOfMibView :: "string \<Rightarrow> SnmpPDU list \<Rightarrow> SnmpPDU" where
  "endOfMibView oid rest =
     \<lparr>Name = (if rest = [] then oid else Name (last rest)), Type = OtherType 130,
      Value = VString ''endOfMib''\<rparr>"

definition agent_respond :: "SnmpPDU list \<Rightarrow> SnmpPacket \<Rightarrow> SnmpPacket" where
  "agent_respond tree req =
     (case Variables req of
        [] \<Rightarrow> req\<lparr>RequestType := OtherRequest 2, Variables := []\<rparr>
      | q # _ \<Rightarrow>
          (let rest = after_oid tree (Name q);
               n = (if RequestType req = GetBulkRequest then unat (MaxRepetitions req)
                    else 1)
           in req\<lparr>RequestType := OtherRequest 2,
                  Variables :=
                    take n (rest @ [endOfMibView (Name q) rest])\<rparr>))"

definition sim_agent :: "SnmpPDU list \<Rightarrow> (SnmpPacket, SnmpPacket option) world" where
  "sim_agent tree =
     \<lparr>marshal = Ok, Unmarshal = Ok,
      conn_Write = (\<lambda>p b. (None, Some b)),
      conn_Read = (\<lambda>p. case p of
                          None \<Rightarrow> (Inl ''i/o timeout'', None)
                        | Some req \<Rightarrow> (Inr (agent_respond tree req), None))\<rparr>"


text \<open>The same agent with a codec that panics when it encodes a request for \<open>bad\<close>.\<close>

definition faulty_agent ::
  "SnmpPDU list \<Rightarrow> string \<Rightarrow> (SnmpPacket, SnmpPacket option) world" where
  "faulty_agent tree bad =
     (sim_agent tree)
       \<lparr>marshal := (\<lambda>p. if map Name (Variables p) = [bad]
                         then Fault ''index out of range'' else Ok p)\<rparr>"

definition session :: "(SnmpPacket, SnmpPacket option) Conn" where
  "session =
     \<lparr>Target = ''192.0.2.1:161'', Community = ''public'', Version = 1,
      Timeout = 5000000000, conn = \<lparr>sent = [], peer = None\<rparr>\<rparr>"

definition var :: "string \<Rightarrow> nat \<Rightarrow> SnmpPDU" where
  "var n k = \<lparr>Name = n, Type = OtherType 2, Value = VOther k\<rparr>"

text \<open>A variable inside the subtree \<open>1.3\<close> whose value is the string \<open>endOfMib\<close>.\<close>

definition falseEnd :: SnmpPDU where
  "falseEnd = \<lparr>Name = ''1.3.1'', Type = OtherType 4, Value = VString ''endOfMib''\<rparr>"

section \<open>Channels and outcomes: basic facts\<close>

lemma Closed_notin_Sent [simp]: "Closed \<notin> Sent ` A"
  by auto

lemma close_return_open:
  "Closed \<notin> set c \<Longrightarrow> close_return x c e = Return (x, c @ [Closed]) e"
  by (simp add: close_return_def chan_close_def)

lemma dispatch_sent:
  "sent (conn (fst (recovered (sendPacket (w\<lparr>marshal := Ok\<rparr>) x p) x))) =
     sent (conn x) @ [p]"
  by (simp add: sendPacket_def recovered_def Let_def
      split: prod.splits option.splits sum.splits codec.splits)

section \<open>Request builders and the dispatch boundary\<close>

text \<open>
  C9. Each of \<open>Get\<close>, \<open>GetMulti\<close>, \<open>GetNext\<close> and \<open>GetBulk\<close> hands to the codec, and with
  an identity codec to the socket, a packet with one \<open>Null\<close>-typed variable per requested
  object identifier, in order and with a nil value, the operation kind of the call
  (\<open>GetMulti\<close> is a Get request), the community of the session and the version field 1,
  whatever the \<open>Version\<close> of the session is.
\<close>

theorem request_packets:
  "sent (conn (fst (Get (w\<lparr>marshal := Ok\<rparr>) (x\<lparr>Conn.Version := ver\<rparr>) oid))) =
     sent (conn x) @
       [\<lparr>Version = 1, Community = Conn.Community x, RequestType = GetRequest,
         Error = 0, ErrorIndex = 0, NonRepeaters = 0, MaxRepetitions = 0,
         Variables = [\<lparr>Name = oid, Type = Null, Value = VNil\<rparr>]\<rparr>] \<and>
   sent (conn (fst (GetMulti (w\<lparr>marshal := Ok\<rparr>) (x\<lparr>Conn.Version := ver\<rparr>) oids))) =
     sent (conn x) @
       [\<lparr>Version = 1, Community = Conn.Community x, RequestType = GetRequest,
         Error = 0, ErrorIndex = 0, NonRepeaters = 0, MaxRepetitions = 0,
         Variables = map (\<lambda>oid. \<lparr>Name = oid, Type = Null, Value = VNil\<rparr>) oids\<rparr>] \<and>
   sent (conn (fst (GetNext (w\<lparr>marshal := Ok\<rparr>) (x\<lparr>Conn.Version := ver\<rparr>) oid))) =
     sent (conn x) @
       [\<lparr>Version = 1, Community = Conn.Community x, RequestType = GetNextRequest,
         Error = 0, ErrorIndex = 0, NonRepeaters = 0, MaxRepetitions = 0,
         Variables = [\<lparr>Name = oid, Type = Null, Value = VNil\<rparr>]\<rparr>] \<and>
   sent (conn (fst (GetBulk (w\<lparr>marshal := Ok\<rparr>) (x\<lparr>Conn.Version := ver\<rparr>)
                      nonRepeaters maxRepetitions oids))) =
     sent (conn x) @
       [\<lparr>Version = 1, Community = Conn.Community x, RequestType = GetBulkRequest,
         Error = 0, ErrorIndex = 0, NonRepeaters = nonRepeaters,
         MaxRepetitions = maxRepetitions,
         Variables = map (\<lambda>oid. \<lparr>Name = oid, Type = Null, Value = VNil\<rparr>) oids\<rparr>]"
  by (simp add: Get_def Get_packet_def GetMulti_def GetMulti_packet_def GetNext_def
      GetNext_packet_def GetBulk_def GetBulk_packet_def dispatch_sent)

text \<open>
  C8. When the codec panics while encoding, each of the four operations returns
  \<open>(nil, nil)\<close>: a nil response together with a nil error, not an error value. The same
  happens when the codec panics while decoding the answer.
\<close>

theorem fault_returns_nil_nil:
  "GetNext (w\<lparr>marshal := \<lambda>p. Fault m\<rparr>) x oid = (x, None, None) \<and>
   GetBulk (w\<lparr>marshal := \<lambda>p. Fault m\<rparr>) x nonRepeaters maxRepetitions oids =
     (x, None, None) \<and>
   Get (w\<lparr>marshal := \<lambda>p. Fault m\<rparr>) x oid = (x, None, None) \<and>
   GetMulti (w\<lparr>marshal := \<lambda>p. Fault m\<rparr>) x oids = (x, None, None) \<and>
   snd (GetNext (w\<lparr>marshal := Ok, conn_Write := \<lambda>p b. (None, p),
                    conn_Read := \<lambda>p. (Inr b, p), Unmarshal := \<lambda>b. Fault m\<rparr>) x oid) =
     (None, None)"
  by (simp add: GetNext_def GetBulk_def Get_def GetMulti_def sendPacket_def recovered_def)

section \<open>The empty object identifier\<close>

lemma empty_oid_rejected:
  "Walk fuel w x [] = Return x ([], Some ErrNoOID)"
  "BulkWalk fuel w x maxRepetitions [] = Return x ([], Some ErrNoOID)"
  "Closed \<notin> set c \<Longrightarrow> StreamWalk fuel w x [] c = Return (x, c @ [Closed]) (Some ErrNoOID)"
  by (simp_all add: Walk_def BulkWalk_def StreamWalk_def close_return_open)

text \<open>
  C4. \<open>StreamBulkWalk\<close> has no test for the empty object identifier. Called with \<open>""\<close>
  it sends a GetBulk request for \<open>""\<close>, finds every name in range, streams the whole
  tree (one address, then the close at the end-of-tree value) and returns a nil error.
\<close>

theorem StreamBulkWalk_empty_oid_sends:
  "final (StreamBulkWalk 1 (sim_agent [var ''1.3.1'' 1]) session 10 [] [] []) =
     Some ((session\<lparr>conn := \<lparr>sent = [GetBulk_packet session 0 10 [[]]], peer = None\<rparr>\<rparr>,
            [endOfMibView [] [var ''1.3.1'' 1]]),
           [Sent 0, Closed]) \<and>
   returned (StreamBulkWalk 1 (sim_agent [var ''1.3.1'' 1]) session 10 [] [] []) = Some None"
  by code_simp

section \<open>Sequential walk\<close>

text \<open>
  C1. The sequential walk keeps a variable whose name contains the root anywhere. On a
  tree with \<open>1.3.1\<close>, \<open>2.1.3\<close> and \<open>2.2\<close> the walk of \<open>1.3\<close> returns \<open>2.1.3\<close> as well,
  a name that does not begin with \<open>1.3\<close>, and so does the streaming walk.
\<close>

theorem Walk_keeps_name_outside_root:
  "returned (Walk 3 (sim_agent [var ''1.3.1'' 1, var ''2.1.3'' 2, var ''2.2'' 3]) session ''1.3'') =
     Some ([var ''1.3.1'' 1, var ''2.1.3'' 2], None) \<and>
   map_option snd
     (final (StreamWalk 3 (sim_agent [var ''1.3.1'' 1, var ''2.1.3'' 2, var ''2.2'' 3]) session
        ''1.3'' [])) =
     Some [Sent (var ''1.3.1'' 1), Sent (var ''2.1.3'' 2), Closed] \<and>
   \<not> strings_HasPrefix ''2.1.3'' ''1.3''"
  by code_simp



section \<open>Streams\<close>

text \<open>
  What a streaming walk does to an open channel. A run of \<open>StreamWalk\<close> that does not
  run out of fuel returns, and then the channel is the old one, the values sent, and one
  close as its last event. Such a run of \<open>StreamBulkWalk\<close> either returns in the same
  way or panics; it never closes twice and never sends after a close, but when it panics
  the channel is left open.
\<close>

lemma StreamWalk_loop_total:
  "Closed \<notin> set c \<Longrightarrow>
     StreamWalk_loop n w x root oid c = OutOfFuel \<or>
     (\<exists>x' vs err. StreamWalk_loop n w x root oid c = Return (x', c @ map Sent vs @ [Closed]) err)"
proof (induction n arbitrary: x oid c)
  case 0
  then show ?case by simp
next
  case (Suc n)
  obtain x1 res e where g: "GetNext w x oid = (x1, res, e)"
    by (cases "GetNext w x oid") auto
  show ?case
  proof (cases "e = None \<and> (\<exists>r v vs. res = Some r \<and> Variables r = v # vs \<and>
                  strings_Index (Name v) root > - 1)")
    case True
    then obtain r v vs where r: "e = None" "res = Some r" "Variables r = v # vs"
      "strings_Index (Name v) root > - 1" by blast
    have u: "StreamWalk_loop (Suc n) w x root oid c =
               StreamWalk_loop n w x1 root (Name v) (c @ [Sent v])"
      using Suc.prems g r by (simp add: chan_send_def)
    have "Closed \<notin> set (c @ [Sent v])" using Suc.prems by simp
    from Suc.IH [OF this, of x1 "Name v"] show ?thesis
    proof
      assume "StreamWalk_loop n w x1 root (Name v) (c @ [Sent v]) = OutOfFuel"
      then show ?thesis using u by simp
    next
      assume "\<exists>x' vs err. StreamWalk_loop n w x1 root (Name v) (c @ [Sent v]) =
                Return (x', (c @ [Sent v]) @ map Sent vs @ [Closed]) err"
      then obtain x' ws err where
        "StreamWalk_loop n w x1 root (Name v) (c @ [Sent v]) =
           Return (x', c @ map Sent (v # ws) @ [Closed]) err" by auto
      then show ?thesis using u by metis
    qed
  next
    case False
    then have "StreamWalk_loop (Suc n) w x root oid c = Return (x1, c @ map Sent [] @ [Closed]) e"
      using Suc.prems g
      by (auto simp: close_return_open split: option.splits list.splits)
    then show ?thesis by blast
  qed
qed

lemma StreamWalk_total:
  assumes "Closed \<notin> set c"
  shows "StreamWalk fuel w x oid c = OutOfFuel \<or>
     (\<exists>x' vs err. StreamWalk fuel w x oid c = Return (x', c @ map Sent vs @ [Closed]) err)"
proof (cases "oid = []")
  case True
  then have "StreamWalk fuel w x oid c = Return (x, c @ map Sent [] @ [Closed]) (Some ErrNoOID)"
    using assms by (simp add: StreamWalk_def close_return_open)
  then show ?thesis by blast
next
  case False
  then show ?thesis using StreamWalk_loop_total [OF assms] by (simp add: StreamWalk_def)
qed

lemma send_all_open:
  "Closed \<notin> set c \<Longrightarrow> \<exists>h'. send_all c h b vs = Inr (c @ map Sent (replicate (length vs) b), h')"
proof (induction vs arbitrary: c h)
  case Nil
  then show ?case by simp
next
  case (Cons v vs)
  have "Closed \<notin> set (c @ [Sent b])" using Cons.prems by simp
  from Cons.IH [OF this, of "h[b := v]"] obtain h' where
    "send_all (c @ [Sent b]) (h[b := v]) b vs =
       Inr ((c @ [Sent b]) @ map Sent (replicate (length vs) b), h')" by blast
  then have "send_all c h b (v # vs) = Inr (c @ map Sent (replicate (length (v # vs)) b), h')"
    using Cons.prems by (simp add: chan_send_def)
  then show ?case by blast
qed

lemma StreamBulkWalk_range_total:
  "Closed \<notin> set c \<Longrightarrow>
     StreamBulkWalk_range rec root x a vs c h = OutOfFuel \<or>
     (\<exists>x' h' as err. StreamBulkWalk_range rec root x a vs c h =
        Return ((x', h'), c @ map Sent as @ [Closed]) err) \<or>
     (\<exists>x' h' as m. StreamBulkWalk_range rec root x a vs c h =
        Panic ((x', h'), c @ map Sent as) m)"
proof (induction vs arbitrary: x c h)
  case Nil
  then have "StreamBulkWalk_range rec root x a [] c h = Return ((x, h), c @ map Sent [] @ [Closed]) None"
    by (simp add: close_return_open)
  then show ?case by blast
next
  case (Cons v vs)
  let ?R = "StreamBulkWalk_range rec root x a (v # vs) c h"
  have op: "Closed \<notin> set (c @ [Sent a])" using Cons.prems by simp
  have lift: "\<And>x1 h1. StreamBulkWalk_range rec root x1 a vs (c @ [Sent a]) h1 = OutOfFuel \<or>
     (\<exists>x' h' as err. StreamBulkWalk_range rec root x1 a vs (c @ [Sent a]) h1 =
        Return ((x', h'), c @ map Sent as @ [Closed]) err) \<or>
     (\<exists>x' h' as m. StreamBulkWalk_range rec root x1 a vs (c @ [Sent a]) h1 =
        Panic ((x', h'), c @ map Sent as) m)"
  proof -
    fix x1 h1
    from Cons.IH [OF op, of x1 h1] show "StreamBulkWalk_range rec root x1 a vs (c @ [Sent a]) h1 = OutOfFuel \<or>
     (\<exists>x' h' as err. StreamBulkWalk_range rec root x1 a vs (c @ [Sent a]) h1 =
        Return ((x', h'), c @ map Sent as @ [Closed]) err) \<or>
     (\<exists>x' h' as m. StreamBulkWalk_range rec root x1 a vs (c @ [Sent a]) h1 =
        Panic ((x', h'), c @ map Sent as) m)"
    proof (elim disjE exE)
      fix x' h' as err
      assume "StreamBulkWalk_range rec root x1 a vs (c @ [Sent a]) h1 =
                Return ((x', h'), (c @ [Sent a]) @ map Sent as @ [Closed]) err"
      then have "StreamBulkWalk_range rec root x1 a vs (c @ [Sent a]) h1 =
                Return ((x', h'), c @ map Sent (a # as) @ [Closed]) err" by simp
      then show ?thesis by blast
    next
      fix x' h' as m
      assume "StreamBulkWalk_range rec root x1 a vs (c @ [Sent a]) h1 =
                Panic ((x', h'), (c @ [Sent a]) @ map Sent as) m"
      then have "StreamBulkWalk_range rec root x1 a vs (c @ [Sent a]) h1 =
                Panic ((x', h'), c @ map Sent (a # as)) m" by simp
      then show ?thesis by blast
    qed simp
  qed
  show ?case
  proof (cases "is_endOfMib v")
    case True
    then have "?R = Return ((x, h[a := v]), c @ map Sent [] @ [Closed]) None"
      using Cons.prems by (simp add: close_return_open)
    then show ?thesis by blast
  next
    case ne: False
    show ?thesis
    proof (cases "in_range root v")
      case False
      then show ?thesis using ne Cons.IH [OF Cons.prems, of x "h[a := v]"] by simp
    next
      case True
      show ?thesis
      proof (cases "vs = []")
        case False
        then have "?R = StreamBulkWalk_range rec root x a vs (c @ [Sent a]) (h[a := v])"
          using ne True Cons.prems by (simp add: chan_send_def)
        then show ?thesis using lift [of x "h[a := v]"] by simp
      next
        case e: True
        show ?thesis
        proof (cases "rec x (Name v)")
          case OutOfFuel
          then show ?thesis using ne True e Cons.prems by (simp add: chan_send_def)
        next
          case (Panic x' m)
          then have "?R = Panic ((x', h[a := v]), c @ map Sent [a]) m"
            using ne True e Cons.prems by (simp add: chan_send_def)
          then show ?thesis by blast
        next
          case (Return x' res)
          obtain sub err where res: "res = (sub, err)" by (cases res)
          show ?thesis
          proof (cases err)
            case (Some e')
            then have "?R = Return ((x', h[a := v]), c @ map Sent [a] @ [Closed]) err"
              using ne True e Cons.prems Return res op by (simp add: chan_send_def close_return_open)
            then show ?thesis by blast
          next
            case None
            obtain b h2 where al: "alloc (h[a := v]) = (b, h2)" by (cases "alloc (h[a := v])")
            from send_all_open [OF op, of h2 b sub] obtain h3 where
              sa: "send_all (c @ [Sent a]) h2 b sub =
                     Inr ((c @ [Sent a]) @ map Sent (replicate (length sub) b), h3)" by blast
            have "?R = Return ((x', h3),
                     c @ map Sent (a # replicate (length sub) b) @ [Closed]) None"
              using ne True e Cons.prems Return res None al sa
              by (simp add: chan_send_def close_return_open)
            then show ?thesis by blast
          qed
        qed
      qed
    qed
  qed
qed

lemma StreamBulkWalk_total:
  assumes "Closed \<notin> set c"
  shows "StreamBulkWalk fuel w x m oid c h = OutOfFuel \<or>
     (\<exists>x' h' as err. StreamBulkWalk fuel w x m oid c h =
        Return ((x', h'), c @ map Sent as @ [Closed]) err) \<or>
     (\<exists>x' h' as msg. StreamBulkWalk fuel w x m oid c h =
        Panic ((x', h'), c @ map Sent as) msg)"
proof -
  obtain x1 res e where g: "GetBulk w x 0 m [oid] = (x1, res, e)"
    by (cases "GetBulk w x 0 m [oid]") auto
  show ?thesis
  proof (cases e)
    case (Some e')
    then have "StreamBulkWalk fuel w x m oid c h = Return ((x1, h), c @ map Sent [] @ [Closed]) e"
      using g assms by (simp add: StreamBulkWalk_def close_return_open)
    then show ?thesis by blast
  next
    case None
    show ?thesis
    proof (cases res)
      case n: None
      then have "StreamBulkWalk fuel w x m oid c h =
                   Panic ((x1, h), c @ map Sent []) ''nil pointer dereference''"
        using g None by (simp add: StreamBulkWalk_def)
      then show ?thesis by blast
    next
      case (Some r)
      obtain a h1 where al: "alloc h = (a, h1)" by (cases "alloc h")
      have "StreamBulkWalk fuel w x m oid c h =
              StreamBulkWalk_range (\<lambda>x' seed. priv_bulkWalk fuel w x' m seed oid) oid x1 a
                (Variables r) c h1"
        using g None Some al by (simp add: StreamBulkWalk_def)
      then show ?thesis using StreamBulkWalk_range_total [OF assms] by simp
    qed
  qed
qed

lemma StreamBulkWalk_nil_response:
  "GetBulk w x 0 m [oid] = (x1, None, None) \<Longrightarrow>
     StreamBulkWalk fuel w x m oid c h = Panic ((x1, h), c) ''nil pointer dereference''"
  by (simp add: StreamBulkWalk_def)

text \<open>
  C3. \<open>StreamBulkWalk\<close> does not close its channel on every path. When the codec panics,
  \<open>GetBulk\<close> recovers and returns \<open>(nil, nil)\<close>; \<open>StreamBulkWalk\<close> (for its own request)
  and \<open>_bulkWalk\<close> (for a request at depth) then read \<open>response.Variables\<close> of the nil
  response: the walk panics, and no \<open>close(resultChan)\<close> is deferred, so the channel stays
  open, empty in the first run below and holding one address in the second. On the
  second world \<open>StreamWalk\<close>, which tests \<open>res != nil\<close>, sends one variable and closes.
\<close>

theorem StreamBulkWalk_leaves_channel_open:
  "panicked (StreamBulkWalk 2
      (faulty_agent [var ''1.3.1'' 1, var ''1.3.2'' 2, var ''1.4'' 3] ''1.3'') session 1 ''1.3'' [] []) \<and>
   map_option snd (final (StreamBulkWalk 2
      (faulty_agent [var ''1.3.1'' 1, var ''1.3.2'' 2, var ''1.4'' 3] ''1.3'') session 1 ''1.3'' [] [])) =
     Some [] \<and>
   panicked (StreamBulkWalk 2
      (faulty_agent [var ''1.3.1'' 1, var ''1.3.2'' 2, var ''1.4'' 3] ''1.3.1'') session 1 ''1.3'' [] []) \<and>
   map_option snd (final (StreamBulkWalk 2
      (faulty_agent [var ''1.3.1'' 1, var ''1.3.2'' 2, var ''1.4'' 3] ''1.3.1'') session 1 ''1.3'' [] [])) =
     Some [Sent 0] \<and>
   map_option snd (final (StreamWalk 2
      (faulty_agent [var ''1.3.1'' 1, var ''1.3.2'' 2, var ''1.4'' 3] ''1.3.1'') session ''1.3'' [])) =
     Some [Sent (var ''1.3.1'' 1), Closed]"
  by code_simp

section \<open>Bulk walk\<close>

lemma bulkWalk_range_sentinel:
  "\<forall>v\<in>set pre. \<not> is_endOfMib v \<Longrightarrow> is_endOfMib s \<Longrightarrow>
     bulkWalk_range rec root x (pre @ s # post) acc =
       Return x (acc @ filter (in_range root) pre, None)"
  by (induction pre arbitrary: acc) simp_all

lemma bulkWalk_range_clean:
  "\<forall>v\<in>set vs. \<not> is_endOfMib v \<Longrightarrow>
     bulkWalk_range rec root x vs acc =
       (if vs \<noteq> [] \<and> in_range root (last vs) then
          (case rec x (Name (last vs)) of
             Return x' (sub, err) \<Rightarrow>
               if err \<noteq> None then Return x' (acc @ filter (in_range root) vs, err)
               else Return x' (acc @ filter (in_range root) vs @ sub, None)
           | Panic x' m \<Rightarrow> Panic x' m
           | OutOfFuel \<Rightarrow> OutOfFuel)
        else Return x (acc @ filter (in_range root) vs, None))"
  by (induction vs arbitrary: acc) (auto split: outcome.splits)

lemma first_sentinel_split:
  assumes "k < length vs" "is_endOfMib (vs ! k)" "\<forall>j<k. \<not> is_endOfMib (vs ! j)"
  shows "vs = take k vs @ (vs ! k) # drop (Suc k) vs \<and> (\<forall>v\<in>set (take k vs). \<not> is_endOfMib v)"
proof
  show "vs = take k vs @ (vs ! k) # drop (Suc k) vs"
    using assms(1) by (simp add: id_take_nth_drop)
  show "\<forall>v\<in>set (take k vs). \<not> is_endOfMib v"
    using assms by (auto simp: in_set_conv_nth)
qed

lemma priv_bulkWalk_stops_at_sentinel:
  assumes "snd (GetBulk w x 0 m [seed]) = (Some r, None)"
    and "k < length (Variables r)"
    and "is_endOfMib (Variables r ! k)"
    and "\<forall>j<k. \<not> is_endOfMib (Variables r ! j)"
  shows "priv_bulkWalk (Suc n) w x m seed root =
           Return (fst (GetBulk w x 0 m [seed]))
             (filter (in_range root) (take k (Variables r)), None)"
    and "(\<forall>u\<in>set pre. \<not> is_endOfMib u) \<and> \<not> is_endOfMib v \<and> in_range root v \<and> Name v = seed \<Longrightarrow>
            bulkWalk_range (\<lambda>x' oid. priv_bulkWalk (Suc n) w x' m oid root) root x (pre @ [v]) acc =
              Return (fst (GetBulk w x 0 m [seed]))
                (acc @ filter (in_range root) (pre @ [v]) @
                   filter (in_range root) (take k (Variables r)), None)"
proof -
  let ?vs = "Variables r"
  obtain x1 where g: "GetBulk w x 0 m [seed] = (x1, Some r, None)"
    using assms(1) by (cases "GetBulk w x 0 m [seed]") auto
  from first_sentinel_split [OF assms(2,3,4)]
  have sp: "?vs = take k ?vs @ (?vs ! k) # drop (Suc k) ?vs"
    and cl: "\<forall>v\<in>set (take k ?vs). \<not> is_endOfMib v" by blast+
  have a: "priv_bulkWalk (Suc n) w x m seed root =
             Return x1 (filter (in_range root) (take k ?vs), None)"
    using g bulkWalk_range_sentinel [OF cl assms(3), of _ root x1 "drop (Suc k) ?vs" "[]"] sp
    by simp
  show "priv_bulkWalk (Suc n) w x m seed root =
           Return (fst (GetBulk w x 0 m [seed]))
             (filter (in_range root) (take k (Variables r)), None)"
    using a g by simp
  show "bulkWalk_range (\<lambda>x' oid. priv_bulkWalk (Suc n) w x' m oid root) root x (pre @ [v]) acc =
              Return (fst (GetBulk w x 0 m [seed]))
                (acc @ filter (in_range root) (pre @ [v]) @
                   filter (in_range root) (take k (Variables r)), None)"
    if h: "(\<forall>u\<in>set pre. \<not> is_endOfMib u) \<and> \<not> is_endOfMib v \<and> in_range root v \<and> Name v = seed"
  proof -
    from h have "\<forall>u\<in>set (pre @ [v]). \<not> is_endOfMib u" by simp
    from bulkWalk_range_clean
           [OF this, of "\<lambda>x' oid. priv_bulkWalk (Suc n) w x' m oid root" root x acc] h a g
    show ?thesis by (simp del: priv_bulkWalk.simps)
  qed
qed

lemma StreamBulkWalk_range_sentinel:
  "\<forall>v\<in>set pre. \<not> is_endOfMib v \<Longrightarrow> is_endOfMib s \<Longrightarrow> Closed \<notin> set c \<Longrightarrow>
     StreamBulkWalk_range rec root x a (pre @ s # post) c h =
       Return ((x, h[a := s]),
               c @ replicate (length (filter (in_range root) pre)) (Sent a) @ [Closed]) None"
  by (induction pre arbitrary: c h) (simp_all add: close_return_open chan_send_def)

text \<open>
  C5. In \<open>_bulkWalk\<close> the end-of-tree value at position \<open>k\<close> ends the walk with the
  in-range variables before \<open>k\<close> (lemma \<open>priv_bulkWalk_stops_at_sentinel\<close>).
  \<open>StreamBulkWalk\<close> stops at the same position, sends nothing for position \<open>k\<close> or later,
  makes no further request and returns nil, but what it has sent is the address of its
  loop variable, once for each in-range variable before \<open>k\<close>, and when it returns that
  cell holds the variable at position \<open>k\<close>. For the batch \<open>1.3.1\<close>, \<open>1.3.2\<close>, end of tree:
  the channel carries address \<open>0\<close> twice and the store holds the end-of-tree variable
  there, while \<open>BulkWalk\<close> returns \<open>1.3.1\<close> and \<open>1.3.2\<close>.
\<close>

theorem StreamBulkWalk_sends_one_address:
  "Variables (agent_respond [var ''1.3.1'' 1, var ''1.3.2'' 2] (GetBulk_packet session 0 5 [''1.3''])) =
     [var ''1.3.1'' 1, var ''1.3.2'' 2, endOfMibView ''1.3'' [var ''1.3.1'' 1, var ''1.3.2'' 2]] \<and>
   final (StreamBulkWalk 0 (sim_agent [var ''1.3.1'' 1, var ''1.3.2'' 2]) session 5 ''1.3'' [] []) =
     Some ((session\<lparr>conn := \<lparr>sent = [GetBulk_packet session 0 5 [''1.3'']], peer = None\<rparr>\<rparr>,
            [endOfMibView ''1.3'' [var ''1.3.1'' 1, var ''1.3.2'' 2]]),
           [Sent 0, Sent 0, Closed]) \<and>
   returned (StreamBulkWalk 0 (sim_agent [var ''1.3.1'' 1, var ''1.3.2'' 2]) session 5 ''1.3'' [] []) =
     Some None \<and>
   returned (BulkWalk 1 (sim_agent [var ''1.3.1'' 1, var ''1.3.2'' 2]) session 5 ''1.3'') =
     Some ([var ''1.3.1'' 1, var ''1.3.2'' 2], None)"
  by code_simp

lemma sentinel_split:
  assumes "\<not> (\<forall>v\<in>set vs. \<not> is_endOfMib v)"
  shows "\<exists>s post. vs = takeWhile (\<lambda>v. \<not> is_endOfMib v) vs @ s # post \<and> is_endOfMib s"
proof -
  let ?P = "\<lambda>v. \<not> is_endOfMib v"
  have ne: "dropWhile ?P vs \<noteq> []" using assms by (simp add: dropWhile_eq_Nil_conv)
  then obtain s post where d: "dropWhile ?P vs = s # post" by (cases "dropWhile ?P vs") auto
  then have "is_endOfMib s" using hd_dropWhile [OF ne] by simp
  moreover have "vs = takeWhile ?P vs @ s # post"
    using d takeWhile_dropWhile_id [of ?P vs] by simp
  ultimately show ?thesis by blast
qed

text \<open>
  C6, amended. After a successful \<open>GetBulk\<close>, \<open>_bulkWalk\<close> calls itself exactly when the
  batch is not empty, none of its variables has the end-of-tree value and its last
  variable is in range; the seed of that call is the name of the last variable, and its
  results follow the in-range variables of the batch (on an error of the call the batch's
  in-range variables are returned with the error). In every other case the result is the
  in-range variables before the first end-of-tree value, in the state the request left,
  so no second request is made.
\<close>

theorem bulkWalk_recursion:
  assumes "snd (GetBulk w x 0 m [seed]) = (Some r, None)"
  shows "priv_bulkWalk (Suc n) w x m seed root =
     (if Variables r \<noteq> [] \<and> (\<forall>v\<in>set (Variables r). \<not> is_endOfMib v) \<and>
         in_range root (last (Variables r))
      then (case priv_bulkWalk n w (fst (GetBulk w x 0 m [seed])) m (Name (last (Variables r))) root of
              Return x2 (sub, err) \<Rightarrow>
                Return x2 (filter (in_range root) (Variables r) @
                             (if err = None then sub else []), err)
            | Panic x2 msg \<Rightarrow> Panic x2 msg
            | OutOfFuel \<Rightarrow> OutOfFuel)
      else Return (fst (GetBulk w x 0 m [seed]))
             (filter (in_range root) (takeWhile (\<lambda>v. \<not> is_endOfMib v) (Variables r)), None))"
proof -
  let ?vs = "Variables r"
  let ?rec = "\<lambda>x' oid. priv_bulkWalk n w x' m oid root"
  obtain x1 where g: "GetBulk w x 0 m [seed] = (x1, Some r, None)"
    using assms by (cases "GetBulk w x 0 m [seed]") auto
  have u: "priv_bulkWalk (Suc n) w x m seed root = bulkWalk_range ?rec root x1 ?vs []"
    using g by simp
  show ?thesis
  proof (cases "\<forall>v\<in>set ?vs. \<not> is_endOfMib v")
    case True
    then have tw: "takeWhile (\<lambda>v. \<not> is_endOfMib v) ?vs = ?vs" by (simp add: takeWhile_eq_all_conv)
    show ?thesis
      unfolding u bulkWalk_range_clean [OF True, of ?rec root x1 "[]"] tw
      using True g by (auto split: outcome.splits)
  next
    case False
    from sentinel_split [OF False] obtain s post where
      sp: "?vs = takeWhile (\<lambda>v. \<not> is_endOfMib v) ?vs @ s # post" and s: "is_endOfMib s" by blast
    have cl: "\<forall>v\<in>set (takeWhile (\<lambda>v. \<not> is_endOfMib v) ?vs). \<not> is_endOfMib v"
      by (auto dest: set_takeWhileD)
    have "bulkWalk_range ?rec root x1 ?vs [] =
            Return x1 ([] @ filter (in_range root) (takeWhile (\<lambda>v. \<not> is_endOfMib v) ?vs), None)"
      using bulkWalk_range_sentinel [OF cl s, of ?rec root x1 post "[]"] sp by simp
    then show ?thesis unfolding u using False g by auto
  qed
qed

theorem bulkWalk_recursion_witness:
  "snd (GetBulk (sim_agent [var ''1.3.1'' 1, var ''1.3.2'' 2, var ''1.4'' 3]) session 0 1 [''1.3'']) =
     (Some (agent_respond [var ''1.3.1'' 1, var ''1.3.2'' 2, var ''1.4'' 3]
              (GetBulk_packet session 0 1 [''1.3''])), None) \<and>
   Variables (agent_respond [var ''1.3.1'' 1, var ''1.3.2'' 2, var ''1.4'' 3]
                (GetBulk_packet session 0 1 [''1.3''])) = [var ''1.3.1'' 1] \<and>
   returned (BulkWalk 3 (sim_agent [var ''1.3.1'' 1, var ''1.3.2'' 2, var ''1.4'' 3]) session 1 ''1.3'') =
     Some ([var ''1.3.1'' 1, var ''1.3.2'' 2], None)"
proof -
  let ?w = "sim_agent [var ''1.3.1'' 1, var ''1.3.2'' 2, var ''1.4'' 3]"
  let ?r = "agent_respond [var ''1.3.1'' 1, var ''1.3.2'' 2, var ''1.4'' 3]
              (GetBulk_packet session 0 1 [''1.3''])"
  have h1: "snd (GetBulk ?w session 0 1 [''1.3'']) = (Some ?r, None)" by code_simp
  have vs: "Variables ?r = [var ''1.3.1'' 1]" by code_simp
  have c: "\<not> is_endOfMib (var ''1.3.1'' 1) \<and> in_range ''1.3'' (var ''1.3.1'' 1) \<and>
           Name (var ''1.3.1'' 1) = ''1.3.1''" by code_simp
  have "returned (priv_bulkWalk 2 ?w (fst (GetBulk ?w session 0 1 [''1.3''])) 1 ''1.3.1'' ''1.3'') =
          Some ([var ''1.3.2'' 2], None)" by code_simp
  then obtain x2 where
    k: "priv_bulkWalk 2 ?w (fst (GetBulk ?w session 0 1 [''1.3''])) 1 ''1.3.1'' ''1.3'' =
          Return x2 ([var ''1.3.2'' 2], None)"
    by (auto simp: returned_def split: outcome.splits)
  from bulkWalk_recursion [OF h1, of 2 "''1.3''"] vs c k
  have "priv_bulkWalk 3 ?w session 1 ''1.3'' ''1.3'' =
          Return x2 ([var ''1.3.1'' 1, var ''1.3.2'' 2], None)"
    by (simp add: eval_nat_numeral del: priv_bulkWalk.simps)
  then show ?thesis using h1 vs by (simp add: returned_def BulkWalk_def del: priv_bulkWalk.simps)
qed

text \<open>
  C6 as stated fails: in the batch \<open>[falseEnd, 1.3.2]\<close> the last variable is in range and
  has not the end-of-tree value, yet the walk returns at \<open>falseEnd\<close> after one request.
\<close>

theorem bulkWalk_recursion_counterexample:
  "Variables (agent_respond [falseEnd, var ''1.3.2'' 2, var ''1.4'' 3]
                (GetBulk_packet session 0 2 [''1.3''])) = [falseEnd, var ''1.3.2'' 2] \<and>
   in_range ''1.3'' (var ''1.3.2'' 2) \<and> \<not> is_endOfMib (var ''1.3.2'' 2) \<and>
   final (BulkWalk 5 (sim_agent [falseEnd, var ''1.3.2'' 2, var ''1.4'' 3]) session 2 ''1.3'') =
     Some (session\<lparr>conn := \<lparr>sent = [GetBulk_packet session 0 2 [''1.3'']], peer = None\<rparr>\<rparr>) \<and>
   returned (BulkWalk 5 (sim_agent [falseEnd, var ''1.3.2'' 2, var ''1.4'' 3]) session 2 ''1.3'') =
     Some ([], None)"
  by code_simp




lemma bulkWalk_range_error:
  "bulkWalk_range rec root x vs acc = Return x' (rs, Some e) \<Longrightarrow>
     vs \<noteq> [] \<and> (\<exists>sub. rec x (Name (last vs)) = Return x' (sub, Some e)) \<and>
     rs = acc @ filter (in_range root) vs"
proof (induction vs arbitrary: acc)
  case Nil
  then show ?case by simp
next
  case (Cons v vs)
  show ?case
  proof (cases "vs = []")
    case True
    then show ?thesis using Cons.prems
      by (auto split: if_splits outcome.splits)
  next
    case False
    then show ?thesis using Cons.prems Cons.IH [of "acc @ [v]"] Cons.IH [of acc]
      by (auto split: if_splits)
  qed
qed

lemma priv_bulkWalk_error_state:
  "priv_bulkWalk n w x m seed root = Return x' (rs, Some e) \<Longrightarrow>
     \<exists>xf sf res. GetBulk w xf 0 m [sf] = (x', res, Some e)"
proof (induction n arbitrary: x seed rs)
  case 0
  then show ?case by simp
next
  case (Suc n)
  obtain x1 res err where g: "GetBulk w x 0 m [seed] = (x1, res, err)"
    by (cases "GetBulk w x 0 m [seed]") auto
  show ?case
  proof (cases err)
    case (Some e')
    then have "x' = x1 \<and> e' = e" using Suc.prems g by simp
    then show ?thesis using g Some by blast
  next
    case None
    then obtain r where r: "res = Some r" using Suc.prems g by (cases res) auto
    have "bulkWalk_range (\<lambda>x' oid. priv_bulkWalk n w x' m oid root) root x1 (Variables r) [] =
            Return x' (rs, Some e)"
      using Suc.prems g None r by simp
    from bulkWalk_range_error [OF this] obtain sub where
      "priv_bulkWalk n w x1 m (Name (last (Variables r))) root = Return x' (sub, Some e)" by blast
    then show ?thesis using Suc.IH by blast
  qed
qed

text \<open>
  Conversely, an error returned by \<open>BulkWalk\<close> for a non-empty root is always the error of
  a failed request, returned in the state that request left and with the in-range
  variables of the first batch.
\<close>

lemma BulkWalk_error_origin:
  assumes "BulkWalk fuel w x m oid = Return x' (rs, Some e)"
  shows "(oid = [] \<longrightarrow> rs = [] \<and> e = ErrNoOID \<and> x' = x) \<and>
         (oid \<noteq> [] \<longrightarrow>
            (\<exists>xf seed res. GetBulk w xf 0 m [seed] = (x', res, Some e)) \<and>
            rs = (case GetBulk w x 0 m [oid] of
                    (x1, response, err) \<Rightarrow>
                      (case err of
                         Some e' \<Rightarrow> []
                       | None \<Rightarrow>
                           (case response of
                              None \<Rightarrow> []
                            | Some r \<Rightarrow> filter (in_range oid) (Variables r)))))"
proof -
  have empty: "oid = [] \<longrightarrow> rs = [] \<and> e = ErrNoOID \<and> x' = x"
    using assms by (auto simp: BulkWalk_def)
  have walk: "oid \<noteq> [] \<longrightarrow>
            (\<exists>xf seed res. GetBulk w xf 0 m [seed] = (x', res, Some e)) \<and>
            rs = (case GetBulk w x 0 m [oid] of
                    (x1, response, err) \<Rightarrow>
                      (case err of
                         Some e' \<Rightarrow> []
                       | None \<Rightarrow>
                           (case response of
                              None \<Rightarrow> []
                            | Some r \<Rightarrow> filter (in_range oid) (Variables r))))"
  proof
    assume ne: "oid \<noteq> []"
    then have p: "priv_bulkWalk fuel w x m oid oid = Return x' (rs, Some e)"
      using assms by (simp add: BulkWalk_def)
    have st: "\<exists>xf seed res. GetBulk w xf 0 m [seed] = (x', res, Some e)"
      using priv_bulkWalk_error_state [OF p] .
    obtain n where f: "fuel = Suc n" using p by (cases fuel) auto
    obtain x1 res err where g: "GetBulk w x 0 m [oid] = (x1, res, err)"
      by (cases "GetBulk w x 0 m [oid]") auto
    have "rs = (case GetBulk w x 0 m [oid] of
                    (x1, response, err) \<Rightarrow>
                      (case err of
                         Some e' \<Rightarrow> []
                       | None \<Rightarrow>
                           (case response of
                              None \<Rightarrow> []
                            | Some r \<Rightarrow> filter (in_range oid) (Variables r))))"
    proof (cases err)
      case (Some e')
      then show ?thesis using p f g by simp
    next
      case None
      then obtain r where r: "res = Some r" using p f g by (cases res) auto
      have "bulkWalk_range (\<lambda>x' seed. priv_bulkWalk n w x' m seed oid) oid x1 (Variables r) [] =
              Return x' (rs, Some e)"
        using p f g None r by simp
      from bulkWalk_range_error [OF this] show ?thesis using g None r by simp
    qed
    with st show "(\<exists>xf seed res. GetBulk w xf 0 m [seed] = (x', res, Some e)) \<and>
            rs = (case GetBulk w x 0 m [oid] of
                    (x1, response, err) \<Rightarrow>
                      (case err of
                         Some e' \<Rightarrow> []
                       | None \<Rightarrow>
                           (case response of
                              None \<Rightarrow> []
                            | Some r \<Rightarrow> filter (in_range oid) (Variables r))))"
      by blast
  qed
  show ?thesis using empty walk by blast
qed


section \<open>Sequential and bulk walk against the simulated agent\<close>

lemma key_less_irrefl: "\<not> key_less xs xs"
  by (induction xs) auto

lemma key_less_trans: "key_less xs ys \<Longrightarrow> key_less ys zs \<Longrightarrow> key_less xs zs"
proof (induction xs ys arbitrary: zs rule: key_less.induct)
  case (1 ys)
  then show ?case by (cases ys; cases zs) auto
next
  case (2 x xs)
  then show ?case by simp
next
  case (3 x xs y ys)
  then show ?case by (cases zs) auto
qed

lemma oid_lt_trans: "oid_lt a b \<Longrightarrow> oid_lt b c \<Longrightarrow> oid_lt a c"
  unfolding oid_lt_def by (rule key_less_trans)

lemma oid_lt_asym: "oid_lt a b \<Longrightarrow> \<not> oid_lt b a"
  unfolding oid_lt_def using key_less_trans key_less_irrefl by blast

lemma oid_lt_irrefl: "\<not> oid_lt a a"
  unfolding oid_lt_def by (rule key_less_irrefl)

lemma after_oid_step:
  assumes s: "sorted_wrt (\<lambda>a b. oid_lt (Name a) (Name b)) tree"
    and a: "after_oid tree s = v # r"
  shows "after_oid tree (Name v) = r"
proof -
  from a obtain us vs where t: "tree = us @ v # vs"
    and pv: "oid_lt s (Name v)" and r: "r = filter (\<lambda>q. oid_lt s (Name q)) vs"
    unfolding after_oid_def by (auto simp: filter_eq_Cons_iff)
  from s t have lo: "\<forall>u\<in>set us. oid_lt (Name u) (Name v)"
    and hi: "\<forall>q\<in>set vs. oid_lt (Name v) (Name q)"
    by (auto simp: sorted_wrt_append)
  have 1: "filter (\<lambda>q. oid_lt (Name v) (Name q)) us = []"
    using lo oid_lt_asym by (auto simp: filter_empty_conv)
  have 2: "filter (\<lambda>q. oid_lt (Name v) (Name q)) vs = vs"
    using hi by (auto simp: filter_id_conv)
  have 3: "filter (\<lambda>q. oid_lt s (Name q)) vs = vs"
    using hi pv oid_lt_trans by (auto simp: filter_id_conv)
  show ?thesis unfolding after_oid_def t using 1 2 3 r oid_lt_irrefl by simp
qed

lemma after_oid_steps:
  assumes s: "sorted_wrt (\<lambda>a b. oid_lt (Name a) (Name b)) tree"
  shows "after_oid tree s = xs @ v # r \<Longrightarrow> after_oid tree (Name v) = r"
proof (induction xs arbitrary: s)
  case Nil
  then show ?case using after_oid_step [OF s] by simp
next
  case (Cons y ys)
  then have "after_oid tree (Name y) = ys @ v # r" using after_oid_step [OF s] by simp
  then show ?case by (rule Cons.IH)
qed

lemma sim_GetNext:
  "\<exists>x' r. GetNext (sim_agent tree) x oid = (x', Some r, None) \<and>
     Variables r = take 1 (after_oid tree oid @ [endOfMibView oid (after_oid tree oid)])"
  by (simp add: GetNext_def GetNext_packet_def sendPacket_def recovered_def sim_agent_def
      agent_respond_def Let_def)

lemma sim_GetBulk:
  "0 < unat m \<Longrightarrow>
   \<exists>x' r. GetBulk (sim_agent tree) x 0 m [oid] = (x', Some r, None) \<and>
     Variables r = take (unat m) (after_oid tree oid @ [endOfMibView oid (after_oid tree oid)])"
  by (simp add: GetBulk_def GetBulk_packet_def sendPacket_def recovered_def sim_agent_def
      agent_respond_def Let_def)

lemma Index_prefix: "prefix p s \<Longrightarrow> strings_Index s p = 0"
  by (cases s) auto

lemma Walk_loop_run:
  assumes s: "sorted_wrt (\<lambda>a b. oid_lt (Name a) (Name b)) tree"
  shows "after_oid tree oid = ins @ b # rest \<Longrightarrow>
         \<forall>v\<in>set ins. strings_Index (Name v) root > - 1 \<Longrightarrow>
         \<not> strings_Index (Name b) root > - 1 \<Longrightarrow>
         length ins < fuel \<Longrightarrow>
         \<exists>x'. Walk_loop fuel (sim_agent tree) x root oid acc = Return x' (acc @ ins, None)"
proof (induction ins arbitrary: fuel x oid acc)
  case Nil
  then obtain n where f: "fuel = Suc n" by (cases fuel) auto
  from sim_GetNext [of tree x oid] Nil.prems(1) obtain x1 r where
    g: "GetNext (sim_agent tree) x oid = (x1, Some r, None)" and v: "Variables r = [b]"
    by auto
  show ?case using f g v Nil.prems(3) by simp
next
  case (Cons i ins)
  then obtain n where f: "fuel = Suc n" and n: "length ins < n" by (cases fuel) auto
  from sim_GetNext [of tree x oid] Cons.prems(1) obtain x1 r where
    g: "GetNext (sim_agent tree) x oid = (x1, Some r, None)" and v: "Variables r = [i]"
    by auto
  have nx: "after_oid tree (Name i) = ins @ b # rest"
    using after_oid_step [OF s] Cons.prems(1) by simp
  from Cons.IH [OF nx _ Cons.prems(3) n, of x1 "acc @ [i]"] Cons.prems(2)
  obtain x' where
    "Walk_loop n (sim_agent tree) x1 root (Name i) (acc @ [i]) = Return x' ((acc @ [i]) @ ins, None)"
    by auto
  then show ?case using f g v Cons.prems(2) by simp
qed

lemma bulkWalk_range_tail:
  "\<forall>v\<in>set tail. \<not> in_range root v \<or> is_endOfMib v \<Longrightarrow>
     bulkWalk_range rec root x tail acc = Return x (acc, None)"
  by (induction tail) auto

lemma bulkWalk_range_prefix:
  "\<forall>v\<in>set ins. in_range root v \<and> \<not> is_endOfMib v \<Longrightarrow> tail \<noteq> [] \<Longrightarrow>
     bulkWalk_range rec root x (ins @ tail) acc = bulkWalk_range rec root x tail (acc @ ins)"
  by (induction ins arbitrary: acc) auto

lemma priv_bulkWalk_run:
  assumes s: "sorted_wrt (\<lambda>a b. oid_lt (Name a) (Name b)) tree" and m: "0 < unat m"
  shows "after_oid tree seed = ins @ b # rest \<Longrightarrow>
         \<forall>v\<in>set ins. in_range root v \<and> \<not> is_endOfMib v \<Longrightarrow>
         \<forall>v\<in>set (b # rest). \<not> in_range root v \<Longrightarrow>
         length ins < n \<Longrightarrow>
         \<exists>x'. priv_bulkWalk n (sim_agent tree) x m seed root = Return x' (ins, None)"
proof (induction n arbitrary: ins seed x)
  case 0
  then show ?case by simp
next
  case (Suc n)
  let ?k = "unat m"
  let ?e = "endOfMibView seed (after_oid tree seed)"
  let ?rec = "\<lambda>x' oid. priv_bulkWalk n (sim_agent tree) x' m oid root"
  from sim_GetBulk [OF m, of tree x seed] obtain x1 r where
    g: "GetBulk (sim_agent tree) x 0 m [seed] = (x1, Some r, None)"
    and v: "Variables r = take ?k (after_oid tree seed @ [?e])" by blast
  have u: "priv_bulkWalk (Suc n) (sim_agent tree) x m seed root =
             bulkWalk_range ?rec root x1 (Variables r) []"
    using g by simp
  show ?case
  proof (cases "?k \<le> length ins")
    case True
    have vs: "Variables r = take ?k ins" using v True Suc.prems(1) by simp
    have ne: "take ?k ins \<noteq> []" using m True by (cases ins) auto
    have cl: "\<forall>v\<in>set (take ?k ins). \<not> is_endOfMib v"
      using Suc.prems(2) by (auto dest: in_set_takeD)
    have fl: "filter (in_range root) (take ?k ins) = take ?k ins"
      using Suc.prems(2) by (auto simp: filter_id_conv dest: in_set_takeD)
    have "last (take ?k ins) \<in> set ins"
      by (rule in_set_takeD [OF last_in_set [OF ne]])
    then have la: "in_range root (last (take ?k ins))"
      using Suc.prems(2) by blast
    have dec: "ins = butlast (take ?k ins) @ last (take ?k ins) # drop ?k ins"
      using ne append_butlast_last_id [OF ne] append_take_drop_id [of ?k ins]
      by (metis append.assoc append_Cons append_Nil)
    have "after_oid tree seed = butlast (take ?k ins) @ last (take ?k ins) # (drop ?k ins @ b # rest)"
      using Suc.prems(1) dec by (metis append.assoc append_Cons)
    from after_oid_steps [OF s this]
    have nx: "after_oid tree (Name (last (take ?k ins))) = drop ?k ins @ b # rest" .
    have "length (drop ?k ins) < n" using Suc.prems(4) m True by simp
    from Suc.IH [OF nx _ Suc.prems(3) this, of x1] Suc.prems(2)
    obtain x' where
      "priv_bulkWalk n (sim_agent tree) x1 m (Name (last (take ?k ins))) root =
         Return x' (drop ?k ins, None)"
      by (auto dest: in_set_dropD)
    then have "bulkWalk_range ?rec root x1 (take ?k ins) [] = Return x' (take ?k ins @ drop ?k ins, None)"
      unfolding bulkWalk_range_clean [OF cl, of ?rec root x1 "[]"] using ne la fl by simp
    then show ?thesis unfolding u vs by simp
  next
    case False
    define tail where "tail = b # take (?k - Suc (length ins)) (rest @ [?e])"
    have vs: "Variables r = ins @ tail"
      using v False Suc.prems(1) by (simp add: tail_def take_Cons')
    have "is_endOfMib ?e" by (simp add: is_endOfMib_def endOfMibView_def)
    then have t: "\<forall>v\<in>set tail. \<not> in_range root v \<or> is_endOfMib v"
      using Suc.prems(3) by (auto simp: tail_def dest!: in_set_takeD)
    have "tail \<noteq> []" by (simp add: tail_def)
    from bulkWalk_range_prefix [OF Suc.prems(2) this, of ?rec x1 "[]"]
      bulkWalk_range_tail [OF t, of ?rec x1 "[] @ ins"]
    show ?thesis unfolding u vs by simp
  qed
qed

text \<open>
  C2, amended. Let the tree of the simulated agent be in the order of object identifiers
  and let the variables after a non-empty root be: a run \<open>ins\<close> of variables whose names
  begin with the root and whose values are not the end-of-tree value, then a variable
  whose name does not contain the root, then variables whose names do not begin with the
  root. With \<open>maxRepetitions\<close> at least 1 and fuel for more than \<open>length ins\<close> requests,
  \<open>Walk\<close> and \<open>BulkWalk\<close> both return, and both return \<open>ins\<close> with a nil error.
\<close>

theorem Walk_eq_BulkWalk:
  assumes "root \<noteq> []"
    and "sorted_wrt (\<lambda>a b. oid_lt (Name a) (Name b)) tree"
    and "after_oid tree root = ins @ b # rest"
    and "\<forall>v\<in>set ins. in_range root v \<and> \<not> is_endOfMib v"
    and "strings_Index (Name b) root = - 1"
    and "\<forall>v\<in>set rest. \<not> in_range root v"
    and "maxRepetitions \<noteq> 0"
    and "length ins < fuel"
  shows "\<exists>x1 x2.
           Walk fuel (sim_agent tree) x root = Return x1 (ins, None) \<and>
           BulkWalk fuel (sim_agent tree) x maxRepetitions root = Return x2 (ins, None)"
proof -
  have m: "0 < unat maxRepetitions" using assms(7) by (simp add: unat_gt_0)
  have i: "\<forall>v\<in>set ins. strings_Index (Name v) root > - 1"
    using assms(4) by (simp add: in_range_def strings_HasPrefix_def Index_prefix)
  have nb: "\<not> strings_Index (Name b) root > - 1" using assms(5) by simp
  have "\<not> in_range root b"
    using assms(5) Index_prefix [of root "Name b"]
    by (auto simp: in_range_def strings_HasPrefix_def)
  then have o: "\<forall>v\<in>set (b # rest). \<not> in_range root v" using assms(6) by simp
  from Walk_loop_run [OF assms(2,3) i nb assms(8), of x "[]"]
  obtain x1 where "Walk_loop fuel (sim_agent tree) x root root [] = Return x1 (ins, None)"
    by auto
  moreover
  from priv_bulkWalk_run [OF assms(2) m assms(3,4) o assms(8), of x]
  obtain x2 where "priv_bulkWalk fuel (sim_agent tree) x maxRepetitions root root = Return x2 (ins, None)"
    by auto
  ultimately show ?thesis using assms(1) by (simp add: Walk_def BulkWalk_def)
qed

theorem Walk_eq_BulkWalk_witness:
  "''1.3'' \<noteq> [] \<and>
   sorted_wrt (\<lambda>a b. oid_lt (Name a) (Name b))
     [var ''1.3.1'' 1, var ''1.3.2'' 2, var ''1.3.10'' 3, var ''1.4'' 4, var ''2.1'' 5] \<and>
   after_oid [var ''1.3.1'' 1, var ''1.3.2'' 2, var ''1.3.10'' 3, var ''1.4'' 4, var ''2.1'' 5] ''1.3'' =
     [var ''1.3.1'' 1, var ''1.3.2'' 2, var ''1.3.10'' 3] @ var ''1.4'' 4 # [var ''2.1'' 5] \<and>
   list_all (\<lambda>v. in_range ''1.3'' v \<and> \<not> is_endOfMib v)
     [var ''1.3.1'' 1, var ''1.3.2'' 2, var ''1.3.10'' 3] \<and>
   strings_Index (Name (var ''1.4'' 4)) ''1.3'' = - 1 \<and>
   list_all (\<lambda>v. \<not> in_range ''1.3'' v) [var ''2.1'' 5] \<and>
   (2 :: 8 word) \<noteq> 0 \<and>
   length [var ''1.3.1'' 1, var ''1.3.2'' 2, var ''1.3.10'' 3] < (4 :: nat) \<and>
   returned (Walk 4
      (sim_agent [var ''1.3.1'' 1, var ''1.3.2'' 2, var ''1.3.10'' 3, var ''1.4'' 4, var ''2.1'' 5])
      session ''1.3'') =
     Some ([var ''1.3.1'' 1, var ''1.3.2'' 2, var ''1.3.10'' 3], None) \<and>
   returned (BulkWalk 4
      (sim_agent [var ''1.3.1'' 1, var ''1.3.2'' 2, var ''1.3.10'' 3, var ''1.4'' 4, var ''2.1'' 5])
      session 2 ''1.3'') =
     Some ([var ''1.3.1'' 1, var ''1.3.2'' 2, var ''1.3.10'' 3], None)"
proof -
  let ?t = "[var ''1.3.1'' 1, var ''1.3.2'' 2, var ''1.3.10'' 3, var ''1.4'' 4, var ''2.1'' 5]"
  let ?ins = "[var ''1.3.1'' 1, var ''1.3.2'' 2, var ''1.3.10'' 3]"
  have h1: "''1.3'' \<noteq> []" by simp
  have h2: "sorted_wrt (\<lambda>a b. oid_lt (Name a) (Name b)) ?t" by code_simp
  have h3: "after_oid ?t ''1.3'' = ?ins @ var ''1.4'' 4 # [var ''2.1'' 5]" by code_simp
  have h4: "\<forall>v\<in>set ?ins. in_range ''1.3'' v \<and> \<not> is_endOfMib v" by code_simp
  have h5: "strings_Index (Name (var ''1.4'' 4)) ''1.3'' = - 1" by code_simp
  have h6: "\<forall>v\<in>set [var ''2.1'' 5]. \<not> in_range ''1.3'' v" by code_simp
  have h7: "(2 :: 8 word) \<noteq> 0" by simp
  have h8: "length ?ins < (4 :: nat)" by simp
  from Walk_eq_BulkWalk [OF h1 h2 h3 h4 h5 h6 h7 h8, of session]
  have "returned (Walk 4 (sim_agent ?t) session ''1.3'') = Some (?ins, None) \<and>
        returned (BulkWalk 4 (sim_agent ?t) session 2 ''1.3'') = Some (?ins, None)"
    by (auto simp: returned_def)
  then show ?thesis using h1 h2 h3 h4 h5 h6 h7 h8 unfolding list_all_iff by blast
qed

text \<open>
  C2 as stated fails. The names beginning with \<open>1.3\<close> are not consecutive in the order of
  object identifiers: \<open>1.4\<close> lies between \<open>1.3.1\<close> and \<open>1.30.1\<close>. \<open>Walk\<close> stops at
  \<open>1.4\<close>; \<open>BulkWalk\<close> with four repetitions skips it and keeps \<open>1.30.1\<close>.
\<close>

theorem Walk_eq_BulkWalk_counterexample:
  "sorted_wrt (\<lambda>a b. oid_lt (Name a) (Name b))
     [var ''1.3.1'' 1, var ''1.4'' 2, var ''1.30.1'' 3, var ''2.1'' 4] \<and>
   returned (Walk 5 (sim_agent [var ''1.3.1'' 1, var ''1.4'' 2, var ''1.30.1'' 3, var ''2.1'' 4])
               session ''1.3'') =
     Some ([var ''1.3.1'' 1], None) \<and>
   returned (BulkWalk 5 (sim_agent [var ''1.3.1'' 1, var ''1.4'' 2, var ''1.30.1'' 3, var ''2.1'' 4])
               session 4 ''1.3'') =
     Some ([var ''1.3.1'' 1, var ''1.30.1'' 3], None)"
  by code_simp

end
